theory Spec2Isabelle
  imports Main "HOL-Library.Word"
begin

unbundle bit_operations_syntax

section \<open>Machine types and constants\<close>

text \<open>
  The C types of \<^verbatim>\<open>receiver_raw.c\<close>: \<^verbatim>\<open>char\<close> is a byte, \<^verbatim>\<open>uint32\<close> a 32-bit word,
  \<^verbatim>\<open>int64\<close> and \<^verbatim>\<open>XLogRecPtr\<close> are 64-bit words. A conversion between \<^verbatim>\<open>int64\<close> and
  \<^verbatim>\<open>XLogRecPtr\<close> keeps the 64 bits, so both are the same word type here; the order
  \<open>\<le>\<close> on words is the unsigned one, which is the order of \<^verbatim>\<open>XLogRecPtr\<close>.
\<close>

type_synonym byte = "8 word"
type_synonym uint32 = "32 word"
type_synonym int64 = "64 word"
type_synonym XLogRecPtr = "64 word"

text \<open>
  \<^verbatim>\<open>InvalidXLogRecPtr\<close> and \<^verbatim>\<open>XLogRecPtr\<close> are declared by the PostgreSQL server header
  \<^verbatim>\<open>access/xlogdefs.h\<close>, which \<^verbatim>\<open>postgres.h\<close> and \<^verbatim>\<open>access/xact.h\<close> pull in and which is
  not a file of this repository: \<^verbatim>\<open>typedef uint64 XLogRecPtr;\<close> and
  \<^verbatim>\<open>#define InvalidXLogRecPtr 0\<close>.
\<close>

definition InvalidXLogRecPtr :: XLogRecPtr where
  "InvalidXLogRecPtr = 0"

text \<open>The macro \<^verbatim>\<open>Max(x, y)\<close> of PostgreSQL's \<^verbatim>\<open>c.h\<close>: \<^verbatim>\<open>((x) > (y) ? (x) : (y))\<close>.\<close>

definition Max_c :: "XLogRecPtr \<Rightarrow> XLogRecPtr \<Rightarrow> XLogRecPtr" where
  "Max_c x y = (if x > y then x else y)"

section \<open>Byte order\<close>

text \<open>
  The byte order of the host is a parameter: \<^verbatim>\<open>htonl\<close> and \<^verbatim>\<open>ntohl\<close> swap the bytes on a
  little-endian host and do nothing on a big-endian one, and \<^verbatim>\<open>memcpy\<close> between a
  \<^verbatim>\<open>uint32\<close> and a \<^verbatim>\<open>char\<close> buffer copies the four bytes in the order of the host.
\<close>

datatype endian = LittleEndian | BigEndian

definition be_bytes32 :: "uint32 \<Rightarrow> byte list" where
  "be_bytes32 n =
     [ucast (drop_bit 24 n), ucast (drop_bit 16 n), ucast (drop_bit 8 n), ucast n]"

fun be_word32 :: "byte list \<Rightarrow> uint32" where
  "be_word32 [a, b, c, d] =
     push_bit 24 (ucast a) OR push_bit 16 (ucast b) OR push_bit 8 (ucast c) OR ucast d"
| "be_word32 _ = 0"

text \<open>\<^verbatim>\<open>memcpy(buf, &n32, 4)\<close>: the four bytes of a \<^verbatim>\<open>uint32\<close> as they lie in memory.\<close>

definition memcpy_from32 :: "endian \<Rightarrow> uint32 \<Rightarrow> byte list" where
  "memcpy_from32 e n =
     (case e of BigEndian \<Rightarrow> be_bytes32 n | LittleEndian \<Rightarrow> rev (be_bytes32 n))"

text \<open>\<^verbatim>\<open>memcpy(&n32, buf, 4)\<close>: the \<^verbatim>\<open>uint32\<close> whose memory holds the four bytes.\<close>

definition memcpy_to32 :: "endian \<Rightarrow> byte list \<Rightarrow> uint32" where
  "memcpy_to32 e bs =
     (case e of BigEndian \<Rightarrow> be_word32 bs | LittleEndian \<Rightarrow> be_word32 (rev bs))"

definition htonl :: "endian \<Rightarrow> uint32 \<Rightarrow> uint32" where
  "htonl e n =
     (case e of BigEndian \<Rightarrow> n | LittleEndian \<Rightarrow> be_word32 (rev (be_bytes32 n)))"

definition ntohl :: "endian \<Rightarrow> uint32 \<Rightarrow> uint32" where
  "ntohl e n =
     (case e of BigEndian \<Rightarrow> n | LittleEndian \<Rightarrow> be_word32 (rev (be_bytes32 n)))"

section \<open>The stream functions\<close>

text \<open>
  \<^verbatim>\<open>fe_sendint64(int64 i, char *buf)\<close> writes eight bytes at \<^verbatim>\<open>buf\<close>; the model returns
  them. \<^verbatim>\<open>i >> 32\<close> on an \<^verbatim>\<open>int64\<close> is the arithmetic shift, and the cast to \<^verbatim>\<open>uint32\<close>
  keeps the low 32 bits of it.
\<close>

definition fe_sendint64 :: "endian \<Rightarrow> int64 \<Rightarrow> byte list" where
  "fe_sendint64 e i =
     (let n32 = (ucast (signed_drop_bit 32 i) :: uint32);
          n32 = htonl e n32;
          buf0 = memcpy_from32 e n32;
          n32 = (ucast i :: uint32);
          n32 = htonl e n32;
          buf4 = memcpy_from32 e n32
      in buf0 @ buf4)"

text \<open>
  \<^verbatim>\<open>fe_recvint64(char *buf)\<close> reads the eight bytes at \<^verbatim>\<open>buf\<close>. The pointer is modelled by
  the object it points into (the bytes allocated for it) and an offset; reading a byte
  that is not in the object is undefined behaviour in C, and \<open>None\<close> here.
  \<^verbatim>\<open>result = h32\<close> extends with zeros, \<^verbatim>\<open>result <<= 32\<close> shifts within 64 bits and
  \<^verbatim>\<open>result |= l32\<close> extends \<^verbatim>\<open>l32\<close> with zeros.
\<close>

definition fe_recvint64 :: "endian \<Rightarrow> byte list \<Rightarrow> nat \<Rightarrow> int64 option" where
  "fe_recvint64 e buf pos =
     (if pos + 8 \<le> length buf then
        let h32 = memcpy_to32 e (take 4 (drop pos buf));
            l32 = memcpy_to32 e (take 4 (drop (pos + 4) buf));
            h32 = ntohl e h32;
            l32 = ntohl e l32;
            result = (ucast h32 :: int64);
            result = push_bit 32 result;
            result = result OR ucast l32
        in Some result
      else None)"

text \<open>\<^verbatim>\<open>buf[i]\<close>, with the same treatment of a read outside the object.\<close>

definition peek :: "byte list \<Rightarrow> nat \<Rightarrow> byte option" where
  "peek buf i = (if i < length buf then Some (buf ! i) else None)"

section \<open>State, events and the outside world\<close>

text \<open>
  The lines written by \<^verbatim>\<open>ereport(LOG, ...)\<close>, one constructor for each message of the
  file, with the values it formats.
\<close>

datatype logline =
    LogConfirming XLogRecPtr XLogRecPtr
      \<comment> \<open>confirming write up to %X/%X, flush to %X/%X (slot custom\_slot)\<close>
  | LogCouldNotSendFeedback     \<comment> \<open>could not send feedback packet: %s\<close>
  | LogCouldNotConnect          \<comment> \<open>Could not establish connection to remote server\<close>
  | LogCouldNotStart            \<comment> \<open>Could not start logical replication\<close>
  | LogProcessedSIGHUP          \<comment> \<open>processed SIGHUP\<close>
  | LogProcessedSIGTERM         \<comment> \<open>processed SIGTERM\<close>
  | LogKeepaliveTooSmall int    \<comment> \<open>streaming header too small: %d\<close>
  | LogIncorrectHeader          \<comment> \<open>Incorrect streaming header\<close>
  | LogHeaderTooSmall           \<comment> \<open>Streaming header too small\<close>
  | LogInsert "byte list"       \<comment> \<open>INSERT received correctly: %s\<close>
  | LogUpdate "byte list"       \<comment> \<open>UPDATE received correctly: %s\<close>
  | LogDelete "byte list"       \<comment> \<open>DELETE received correctly: %s\<close>
  | LogApplyError "byte list"   \<comment> \<open>Error when applying change: %s\<close>
  | LogIncorrectStatus          \<comment> \<open>Incorrect status received... Leaving.\<close>
  | LogDataRemaining            \<comment> \<open>Data remaining on the socket... Leaving.\<close>
  | LogStreamEnded              \<comment> \<open>COPY Stream has abruptly ended...\<close>
  | LogReceiveFailure           \<comment> \<open>Failure while receiving changes...\<close>

text \<open>
  What the worker does to the outside, in order. \<open>StartTransaction\<close> stands for the four
  calls that open a batch (\<^verbatim>\<open>SetCurrentStatementStartTimestamp\<close>,
  \<^verbatim>\<open>StartTransactionCommand\<close>, \<^verbatim>\<open>SPI_connect\<close>, \<^verbatim>\<open>PushActiveSnapshot\<close>) and
  \<open>CommitTransaction\<close> for the four that close it (\<^verbatim>\<open>SPI_finish\<close>, \<^verbatim>\<open>PopActiveSnapshot\<close>,
  \<^verbatim>\<open>CommitTransactionCommand\<close>, \<^verbatim>\<open>pgstat_report_activity(STATE_IDLE)\<close>).
\<close>

datatype event =
    Log logline
  | PutCopyData "byte list"     \<comment> \<open>\<^verbatim>\<open>PQputCopyData(conn, replybuf, len)\<close>\<close>
  | Flush                       \<comment> \<open>\<^verbatim>\<open>PQflush(conn)\<close>\<close>
  | Execute "byte list"         \<comment> \<open>\<^verbatim>\<open>SPI_execute(copybuf + hdr_len, false, 0)\<close>\<close>
  | StartTransaction
  | CommitTransaction
  | ProcessConfigFile

text \<open>
  What a call of \<^verbatim>\<open>SPI_execute\<close> does. When it returns, the value is an \<^verbatim>\<open>int\<close> that the
  worker compares with three constants of \<^verbatim>\<open>executor/spi.h\<close> only; any other value is
  \<open>SPI_other\<close>. When the statement fails in the server (a syntax error, a missing table, a
  violated constraint), the server reports it by \<^verbatim>\<open>ereport(ERROR, ...)\<close> inside the call,
  which does not return to the caller: that is \<open>SPI_raises_error\<close>.
\<close>

datatype spi_outcome =
  SPI_OK_INSERT | SPI_OK_UPDATE | SPI_OK_DELETE | SPI_other int | SPI_raises_error

text \<open>
  The file-level variables \<^verbatim>\<open>output_written_lsn\<close> and \<^verbatim>\<open>output_fsync_lsn\<close>, and the
  events so far.
\<close>

record state =
  output_written_lsn :: XLogRecPtr
  output_fsync_lsn :: XLogRecPtr
  events :: "event list"

definition init_state :: state where
  "init_state =
     \<lparr>output_written_lsn = InvalidXLogRecPtr, output_fsync_lsn = InvalidXLogRecPtr,
      events = []\<rparr>"

text \<open>
  The answers of the outside world (libpq, SPI, the clock) are functions of the events
  so far, so that they may depend on everything that has happened.
\<close>

record env =
  host :: endian
  PQputCopyData :: "event list \<Rightarrow> byte list \<Rightarrow> int"
  PQflush :: "event list \<Rightarrow> int"
  SPI_execute :: "event list \<Rightarrow> byte list \<Rightarrow> spi_outcome"
  feGetCurrentTimestamp :: "event list \<Rightarrow> int64"

definition emit :: "event \<Rightarrow> state \<Rightarrow> state" where
  "emit ev s = s\<lparr>events := events s @ [ev]\<rparr>"

text \<open>
  How a step ends: the loop goes on, the process leaves through \<^verbatim>\<open>proc_exit(n)\<close>, the
  step has read outside an object (undefined behaviour), or an error raised by the
  server leaves \<^verbatim>\<open>receiver_raw_main\<close>. The file has no \<^verbatim>\<open>PG_TRY\<close>, so nothing in it catches
  such an error: control goes to the error handling of the server for background
  workers, which reports the error, rolls the open transaction back and ends the worker
  with status 1.
\<close>

datatype flow = Running | ProcExit int | MemFault | ErrorRaised

section \<open>sendFeedback\<close>

text \<open>
  The bytes of \<^verbatim>\<open>replybuf\<close> after the six assignments, \<^verbatim>\<open>len\<close> being their number.
\<close>

definition replybuf :: "endian \<Rightarrow> XLogRecPtr \<Rightarrow> XLogRecPtr \<Rightarrow> int64 \<Rightarrow> byte list" where
  "replybuf e written fsync now =
     [0x72] @ fe_sendint64 e written @ fe_sendint64 e fsync
       @ fe_sendint64 e InvalidXLogRecPtr @ fe_sendint64 e now @ [0]"

definition sendFeedback :: "env \<Rightarrow> int64 \<Rightarrow> state \<Rightarrow> bool \<times> state" where
  "sendFeedback env now s =
     (let s = emit (Log (LogConfirming (output_written_lsn s) (output_fsync_lsn s))) s;
          buf = replybuf (host env) (output_written_lsn s) (output_fsync_lsn s) now;
          put = PQputCopyData env (events s) buf;
          s = emit (PutCopyData buf) s
      in if put \<le> 0 then (False, emit (Log LogCouldNotSendFeedback) s)
         else
           let fl = PQflush env (events s);
               s = emit Flush s
           in if fl \<noteq> 0 then (False, emit (Log LogCouldNotSendFeedback) s)
              else (True, s))"

section \<open>The receive loop\<close>

text \<open>
  What \<^verbatim>\<open>PQgetCopyData(conn, &copybuf, 1)\<close> gives: a row of \<open>rc > 0\<close> bytes, or 0 (no row
  is complete yet), -1 (the copy is done) or -2 (an error). For a row libpq allocates
  \<open>rc + 1\<close> bytes, the row and a terminating zero byte, so \<^verbatim>\<open>copybuf\<close> is the row followed
  by that byte.
\<close>

datatype copy_result = CopyRow "byte list" | NoRowYet | CopyDone | CopyFailed

fun rc_of :: "copy_result \<Rightarrow> int" where
  "rc_of (CopyRow row) = int (length row)"
| "rc_of NoRowYet = 0"
| "rc_of CopyDone = -1"
| "rc_of CopyFailed = -2"

fun copybuf_of :: "copy_result \<Rightarrow> byte list" where
  "copybuf_of (CopyRow row) = row @ [0]"
| "copybuf_of _ = []"

text \<open>\<^verbatim>\<open>copybuf + hdr_len\<close> read as a C string: the bytes up to the first zero byte.\<close>

definition cstring_at :: "byte list \<Rightarrow> nat \<Rightarrow> byte list" where
  "cstring_at buf pos = takeWhile (\<lambda>b. b \<noteq> 0) (drop pos buf)"

text \<open>Lines 325 and 326: the update of the two positions from \<^verbatim>\<open>walEnd\<close>.\<close>

definition observe :: "XLogRecPtr \<Rightarrow> state \<Rightarrow> state" where
  "observe walEnd s =
     (let s = s\<lparr>output_written_lsn := Max_c walEnd (output_written_lsn s)\<rparr>
      in s\<lparr>output_fsync_lsn := output_written_lsn s\<rparr>)"

text \<open>The branch \<^verbatim>\<open>copybuf[0] == 'k'\<close> of the loop body, lines 306 to 351.\<close>

definition keepalive :: "env \<Rightarrow> byte list \<Rightarrow> int \<Rightarrow> state \<Rightarrow> flow \<times> state" where
  "keepalive env copybuf rc s =
     (let pos = (1::nat) in
      case fe_recvint64 (host env) copybuf pos of
        None \<Rightarrow> (MemFault, s)
      | Some walEnd \<Rightarrow>
          let s = observe walEnd s;
              pos = pos + 8;
              pos = pos + 8
          in if rc < int pos + 1 then (ProcExit 1, emit (Log (LogKeepaliveTooSmall rc)) s)
             else
               (case peek copybuf pos of
                  None \<Rightarrow> (MemFault, s)
                | Some replyRequested \<Rightarrow>
                    if replyRequested \<noteq> 0 then
                      let now = feGetCurrentTimestamp env (events s);
                          (sent, s) = sendFeedback env now s
                      in if \<not> sent then (ProcExit 1, s) else (Running, s)
                    else (Running, s)))"

text \<open>
  The rest of the loop body for a row that is not a keepalive, lines 352 to 389. When
  \<^verbatim>\<open>SPI_execute\<close> raises an error, none of the lines after the call is reached.
\<close>

definition waldata :: "env \<Rightarrow> byte list \<Rightarrow> int \<Rightarrow> state \<Rightarrow> flow \<times> state" where
  "waldata env copybuf rc s =
     (let hdr_len = (1::nat);
          hdr_len = hdr_len + 8;
          hdr_len = hdr_len + 8;
          hdr_len = hdr_len + 8
      in if rc < int hdr_len + 1 then (ProcExit 1, emit (Log LogHeaderTooSmall) s)
         else
           let stmt = cstring_at copybuf hdr_len;
               rc = SPI_execute env (events s) stmt;
               s = emit (Execute stmt) s
           in case rc of
                SPI_raises_error \<Rightarrow> (ErrorRaised, s)
              | SPI_OK_INSERT \<Rightarrow> (Running, emit (Log (LogInsert stmt)) s)
              | SPI_OK_UPDATE \<Rightarrow> (Running, emit (Log (LogUpdate stmt)) s)
              | SPI_OK_DELETE \<Rightarrow> (Running, emit (Log (LogDelete stmt)) s)
              | SPI_other _ \<Rightarrow> (Running, emit (Log (LogApplyError stmt)) s))"

text \<open>The body of \<^verbatim>\<open>while (true)\<close> after the test \<^verbatim>\<open>rc <= 0\<close>, for a row of \<open>rc\<close> bytes.\<close>

definition process_row :: "env \<Rightarrow> byte list \<Rightarrow> int \<Rightarrow> state \<Rightarrow> flow \<times> state" where
  "process_row env copybuf rc s =
     (case peek copybuf 0 of
        None \<Rightarrow> (MemFault, s)
      | Some tag \<Rightarrow>
          if tag = 0x6B then keepalive env copybuf rc s
          else if tag \<noteq> 0x77 then (ProcExit 1, emit (Log LogIncorrectHeader) s)
          else waldata env copybuf rc s)"

text \<open>
  How the loop \<^verbatim>\<open>while (true)\<close> is left: by \<^verbatim>\<open>break\<close> with the last \<^verbatim>\<open>rc\<close>, or because the
  process is gone.
\<close>

datatype loop_end = LoopBreak int | LoopStop flow

text \<open>
  The loop itself. Its argument lists what the successive calls of \<^verbatim>\<open>PQgetCopyData\<close>
  return; the loop may go on for as long as rows arrive, and the result is \<open>None\<close> when
  the listed calls do not end it.
\<close>

fun receive_loop :: "env \<Rightarrow> copy_result list \<Rightarrow> state \<Rightarrow> (loop_end \<times> state) option" where
  "receive_loop env [] s = None"
| "receive_loop env (r # rs) s =
     (let rc = rc_of r in
      if rc \<le> 0 then Some (LoopBreak rc, s)
      else
        case process_row env (copybuf_of r) rc s of
          (Running, s') \<Rightarrow> receive_loop env rs s'
        | (fl, s') \<Rightarrow> Some (LoopStop fl, s'))"

section \<open>The main loop\<close>

text \<open>
  What one pass of \<^verbatim>\<open>while (!got_sigterm)\<close> meets: the flags set by the signal handlers
  when the pass reads them, the result of \<^verbatim>\<open>WaitLatch\<close>, the results of the calls of
  \<^verbatim>\<open>PQgetCopyData\<close>, and those of \<^verbatim>\<open>select\<close> and \<^verbatim>\<open>PQconsumeInput\<close>. The timeout given to
  \<^verbatim>\<open>select\<close> only bounds how long it blocks and is left out.
\<close>

record pass =
  sigterm_at_top :: bool        \<comment> \<open>\<^verbatim>\<open>got_sigterm\<close> in the loop condition\<close>
  postmaster_death :: bool      \<comment> \<open>\<^verbatim>\<open>rc & WL_POSTMASTER_DEATH\<close>\<close>
  sighup :: bool                \<comment> \<open>\<^verbatim>\<open>got_sighup\<close> after the wait\<close>
  sigterm :: bool               \<comment> \<open>\<^verbatim>\<open>got_sigterm\<close> after the wait\<close>
  copy_results :: "copy_result list"
  select_r :: int               \<comment> \<open>the result of \<^verbatim>\<open>select\<close>\<close>
  select_eintr :: bool          \<comment> \<open>\<^verbatim>\<open>errno == EINTR\<close> after it\<close>
  consume_input :: int          \<comment> \<open>the result of \<^verbatim>\<open>PQconsumeInput\<close>\<close>

text \<open>How a pass ends: \<^verbatim>\<open>continue\<close>, \<^verbatim>\<open>break\<close>, or the process is gone.\<close>

datatype pass_end = PassContinue | PassBreak | PassStop flow

text \<open>The part of a pass after the batch is committed, lines 399 to 479.\<close>

definition after_commit :: "pass \<Rightarrow> int \<Rightarrow> state \<Rightarrow> pass_end \<times> state" where
  "after_commit p rc s =
     (if rc = 0 then
        let r = select_r p in
        if r = 0 \<or> (r < 0 \<and> select_eintr p) then (PassContinue, s)
        else if r < 0 then (PassStop (ProcExit 1), emit (Log LogIncorrectStatus) s)
        else if consume_input p = 0 then (PassStop (ProcExit 1), emit (Log LogDataRemaining) s)
        else (PassContinue, s)
      else if rc = -1 then (PassBreak, emit (Log LogStreamEnded) s)
      else if rc = -2 then (PassStop (ProcExit 1), emit (Log LogReceiveFailure) s)
      else (PassContinue, s))"

text \<open>The body of the main loop, lines 245 to 479.\<close>

definition main_pass :: "env \<Rightarrow> pass \<Rightarrow> state \<Rightarrow> (pass_end \<times> state) option" where
  "main_pass env p s =
     (let s = (if sighup p then emit (Log LogProcessedSIGHUP) (emit ProcessConfigFile s) else s)
      in if sigterm p then Some (PassStop (ProcExit 0), emit (Log LogProcessedSIGTERM) s)
         else if postmaster_death p then Some (PassStop (ProcExit 1), s)
         else
           let s = emit StartTransaction s in
           case receive_loop env (copy_results p) s of
             None \<Rightarrow> None
           | Some (LoopStop fl, s) \<Rightarrow> Some (PassStop fl, s)
           | Some (LoopBreak rc, s) \<Rightarrow>
               let s = emit CommitTransaction s
               in Some (after_commit p rc s))"

text \<open>
  The main loop over the passes listed, and \<^verbatim>\<open>proc_exit(0)\<close> after it. \<open>None\<close>: the
  passes listed do not end the process.
\<close>

fun main_loop :: "env \<Rightarrow> pass list \<Rightarrow> state \<Rightarrow> (flow \<times> state) option" where
  "main_loop env [] s = None"
| "main_loop env (p # ps) s =
     (if sigterm_at_top p then Some (ProcExit 0, s)
      else
        case main_pass env p s of
          None \<Rightarrow> None
        | Some (PassContinue, s') \<Rightarrow> main_loop env ps s'
        | Some (PassBreak, s') \<Rightarrow> Some (ProcExit 0, s')
        | Some (PassStop fl, s') \<Rightarrow> Some (fl, s'))"

text \<open>
  \<^verbatim>\<open>receiver_raw_main\<close>: the connection, the start of the replication, the main loop.
\<close>

definition receiver_raw_main ::
  "env \<Rightarrow> bool \<Rightarrow> bool \<Rightarrow> pass list \<Rightarrow> (flow \<times> state) option" where
  "receiver_raw_main env connection_ok copy_both ps =
     (if \<not> connection_ok then Some (ProcExit 1, emit (Log LogCouldNotConnect) init_state)
      else if \<not> copy_both then Some (ProcExit 1, emit (Log LogCouldNotStart) init_state)
      else main_loop env ps init_state)"

section \<open>Notions of the specification\<close>

text \<open>
  The eight bytes of a 64-bit value in network order, the most significant byte first,
  written without the functions of the program: the layout the wire format asks for.
\<close>

definition big_endian64 :: "int64 \<Rightarrow> byte list" where
  "big_endian64 v =
     [ucast (drop_bit 56 v), ucast (drop_bit 48 v), ucast (drop_bit 40 v),
      ucast (drop_bit 32 v), ucast (drop_bit 24 v), ucast (drop_bit 16 v),
      ucast (drop_bit 8 v), ucast v]"

text \<open>How many times a batch has been committed.\<close>

definition commits :: "state \<Rightarrow> nat" where
  "commits s = count_list (events s) CommitTransaction"

text \<open>
  The statements that the local database keeps: those executed in a transaction that
  has been committed. A transaction that is open when the process leaves is rolled back
  by the server, so its statements are not among them.
\<close>

fun txn_step :: "event \<Rightarrow> byte list list \<times> byte list list \<Rightarrow> byte list list \<times> byte list list" where
  "txn_step StartTransaction (batch, kept) = ([], kept)"
| "txn_step (Execute stmt) (batch, kept) = (batch @ [stmt], kept)"
| "txn_step CommitTransaction (batch, kept) = ([], kept @ batch)"
| "txn_step _ (batch, kept) = (batch, kept)"

definition persisted :: "state \<Rightarrow> byte list list" where
  "persisted s = snd (fold txn_step (events s) ([], []))"

text \<open>The events of a step that neither open nor close a transaction.\<close>

definition no_txn :: "event list \<Rightarrow> bool" where
  "no_txn evs = (CommitTransaction \<notin> set evs \<and> StartTransaction \<notin> set evs)"

text \<open>The log lines of the four ways in which the body of the receive loop ends the process.\<close>

definition fatal_log :: "event \<Rightarrow> bool" where
  "fatal_log ev =
     ((\<exists>n. ev = Log (LogKeepaliveTooSmall n)) \<or> ev = Log LogIncorrectHeader
      \<or> ev = Log LogHeaderTooSmall \<or> ev = Log LogCouldNotSendFeedback)"

section \<open>The utility hook\<close>

text \<open>
  \<^verbatim>\<open>hook_utility.c\<close>. Of the parse tree the hook looks at the node tag and, for
  \<^verbatim>\<open>T_DropdbStmt\<close>, at \<^verbatim>\<open>dbname\<close>; every other tag is \<open>OtherStmt\<close>.
\<close>

datatype node = DropdbStmt string bool | OtherStmt nat

text \<open>
  \<^verbatim>\<open>ereport(ERROR, (errcode(ERRCODE_INSUFFICIENT_PRIVILEGE), errmsg(...)))\<close> with the two
  names that the message formats. It leaves the function at once.
\<close>

datatype pg_error = ERRCODE_INSUFFICIENT_PRIVILEGE string string

text \<open>
  The file-level variables of the hook. What the previous hook or
  \<^verbatim>\<open>standard_ProcessUtility\<close> does with the statement has the type \<open>'r\<close>.
\<close>

record 'r hook_globals =
  hook_dbname :: string
  hook_username :: string
  prev_utility_hook :: "(node \<Rightarrow> 'r) option"

text \<open>
  \<^verbatim>\<open>dbrestrict_utility\<close>; \<open>username\<close> is what \<^verbatim>\<open>GetUserNameFromId(GetUserId(), false)\<close>
  returns. \<open>Inl\<close> is the error that the hook raises itself, \<open>Inr\<close> what the fallback does.
\<close>

definition dbrestrict_utility ::
  "'r hook_globals \<Rightarrow> (node \<Rightarrow> 'r) \<Rightarrow> string \<Rightarrow> node \<Rightarrow> pg_error + 'r" where
  "dbrestrict_utility g standard_ProcessUtility username parsetree =
     (case (case parsetree of
              DropdbStmt dbname missing_ok \<Rightarrow>
                if dbname = hook_dbname g \<and> username \<noteq> hook_username g
                then Inl (ERRCODE_INSUFFICIENT_PRIVILEGE (hook_username g) (hook_dbname g))
                else Inr ()
            | OtherStmt tag \<Rightarrow> Inr ()) of
        Inl err \<Rightarrow> Inl err
      | Inr u \<Rightarrow>
          (case prev_utility_hook g of
             Some hook \<Rightarrow> Inr (hook parsetree)
           | None \<Rightarrow> Inr (standard_ProcessUtility parsetree)))"

section \<open>Concrete inputs\<close>

text \<open>
  A little-endian host where every call to the outside succeeds: the feedback is sent,
  the statement is an accepted INSERT, the clock reads 0.
\<close>

definition env_ok :: env where
  "env_ok =
     \<lparr>host = LittleEndian, PQputCopyData = (\<lambda>evs buf. 1), PQflush = (\<lambda>evs. 0),
      SPI_execute = (\<lambda>evs stmt. SPI_OK_INSERT), feGetCurrentTimestamp = (\<lambda>evs. 0)\<rparr>"

text \<open>The same host where \<^verbatim>\<open>SPI_execute\<close> returns the code -1 for every statement.\<close>

definition env_refusing :: env where
  "env_refusing = env_ok\<lparr>SPI_execute := (\<lambda>evs stmt. SPI_other (- 1))\<rparr>"

text \<open>
  The same host with a local database that accepts every statement but \<^verbatim>\<open>x\<close>, which is not
  SQL and fails with a syntax error.
\<close>

definition env_failing :: env where
  "env_failing =
     env_ok\<lparr>SPI_execute := (\<lambda>evs stmt. if stmt = [0x78] then SPI_raises_error
                                       else SPI_OK_INSERT)\<rparr>"

text \<open>A keepalive row for the position 500 that asks for a reply.\<close>

definition row_keepalive_500 :: "byte list" where
  "row_keepalive_500 =
     [0x6B, 0, 0, 0, 0, 0, 0, 0x01, 0xF4, 0, 0, 0, 0, 0, 0, 0, 0, 1]"

text \<open>
  A data row of 25 bytes, the header alone, one of 27 with the statement \<^verbatim>\<open>;;\<close> and one of
  26 with the statement \<^verbatim>\<open>x\<close>.
\<close>

definition row_waldata_header :: "byte list" where
  "row_waldata_header = 0x77 # replicate 24 0"

definition row_waldata_stmt :: "byte list" where
  "row_waldata_stmt = 0x77 # replicate 24 0 @ [0x3B, 0x3B]"

definition row_waldata_x :: "byte list" where
  "row_waldata_x = 0x77 # replicate 24 0 @ [0x78]"

text \<open>A pass of the main loop without signals that receives the rows given.\<close>

definition quiet_pass :: "copy_result list \<Rightarrow> pass" where
  "quiet_pass rs =
     \<lparr>sigterm_at_top = False, postmaster_death = False, sighup = False, sigterm = False,
      copy_results = rs, select_r = 0, select_eintr = False, consume_input = 1\<rparr>"

section \<open>The 64-bit codec\<close>

lemma ucast_signed_drop_bit_32:
  "(ucast (signed_drop_bit 32 (i::int64)) :: uint32) = ucast (drop_bit 32 i)"
  (is "?l = ?r")
proof (rule bit_word_eqI)
  fix n assume "n < LENGTH(32)"
  then show "bit ?l n = bit ?r n"
    by (auto simp add: bit_simps)
qed

lemma join_halves:
  "push_bit 32 (ucast (ucast (drop_bit 32 (i::int64)) :: uint32)) OR ucast (ucast i :: uint32) = i"
  (is "?l = ?r")
proof (rule bit_word_eqI)
  fix n assume "n < LENGTH(64)"
  then show "bit ?l n = bit ?r n"
    by (cases "n < 32") (auto simp add: bit_simps)
qed

lemma high_half:
  "(ucast (drop_bit 32 (push_bit 32 (ucast (h::uint32)) OR ucast (l::uint32) :: int64)) :: uint32) = h"
  (is "?l = ?r")
proof (rule bit_word_eqI)
  fix n assume "n < LENGTH(32)"
  then show "bit ?l n = bit ?r n"
    by (auto simp add: bit_simps dest: bit_imp_le_length)
qed

lemma low_half:
  "(ucast ((push_bit 32 (ucast (h::uint32)) OR ucast (l::uint32) :: int64)) :: uint32) = l"
  (is "?l = ?r")
proof (rule bit_word_eqI)
  fix n assume "n < LENGTH(32)"
  then show "bit ?l n = bit ?r n"
    by (auto simp add: bit_simps dest: bit_imp_le_length)
qed

lemma be_word32_bytes: "be_word32 (be_bytes32 n) = n"  (is "?l = ?r")
proof (rule bit_word_eqI)
  fix k assume k: "k < LENGTH(32)"
  consider "k < 8" | "8 \<le> k" "k < 16" | "16 \<le> k" "k < 24" | "24 \<le> k" by linarith
  then show "bit ?l k = bit ?r k"
    using k unfolding be_bytes32_def be_word32.simps by cases (auto simp add: bit_simps)
qed

lemma byte3: "ucast (drop_bit 24 (be_word32 [a, b, c, d])) = a" (is "?l = ?r")
proof (rule bit_word_eqI)
  fix k assume k: "k < LENGTH(8)"
  then show "bit ?l k = bit ?r k" unfolding be_word32.simps
    by (auto simp add: bit_simps dest: bit_imp_le_length)
qed

lemma byte2: "ucast (drop_bit 16 (be_word32 [a, b, c, d])) = b" (is "?l = ?r")
proof (rule bit_word_eqI)
  fix k assume k: "k < LENGTH(8)"
  then show "bit ?l k = bit ?r k" unfolding be_word32.simps
    by (auto simp add: bit_simps dest: bit_imp_le_length)
qed

lemma byte1: "ucast (drop_bit 8 (be_word32 [a, b, c, d])) = c" (is "?l = ?r")
proof (rule bit_word_eqI)
  fix k assume k: "k < LENGTH(8)"
  then show "bit ?l k = bit ?r k" unfolding be_word32.simps
    by (auto simp add: bit_simps dest: bit_imp_le_length)
qed

lemma byte0: "ucast (be_word32 [a, b, c, d]) = d" (is "?l = ?r")
proof (rule bit_word_eqI)
  fix k assume k: "k < LENGTH(8)"
  then show "bit ?l k = bit ?r k" unfolding be_word32.simps
    by (auto simp add: bit_simps dest: bit_imp_le_length)
qed

lemma length4E:
  assumes "length bs = 4"
  obtains a b c d where "bs = [a, b, c, d]"
proof -
  from assms obtain a r1 where 1: "bs = a # r1" "length r1 = 3" by (cases bs) auto
  then obtain b r2 where 2: "r1 = b # r2" "length r2 = 2" by (cases r1) auto
  then obtain c r3 where 3: "r2 = c # r3" "length r3 = 1" by (cases r2) auto
  then obtain d where 4: "r3 = [d]" by (cases r3) auto
  from 1 2 3 4 that show thesis by simp
qed

lemma be_bytes32_word: "length bs = 4 \<Longrightarrow> be_bytes32 (be_word32 bs) = bs"
proof -
  assume "length bs = 4"
  then obtain a b c d where bs: "bs = [a, b, c, d]" by (rule length4E)
  show ?thesis unfolding bs be_bytes32_def by (simp only: byte3 byte2 byte1 byte0)
qed

lemma length_be_bytes32: "length (be_bytes32 n) = 4"
  by (simp add: be_bytes32_def)

lemma memcpy_from32_htonl: "memcpy_from32 e (htonl e n) = be_bytes32 n"
  by (cases e) (simp_all add: memcpy_from32_def htonl_def be_bytes32_word length_be_bytes32)

lemma ntohl_memcpy_to32: "length bs = 4 \<Longrightarrow> ntohl e (memcpy_to32 e bs) = be_word32 bs"
  by (cases e) (simp_all add: memcpy_to32_def ntohl_def be_bytes32_word)

lemma fe_sendint64_be:
  "fe_sendint64 e i = be_bytes32 (ucast (drop_bit 32 i)) @ be_bytes32 (ucast i)"
  by (simp add: fe_sendint64_def memcpy_from32_htonl ucast_signed_drop_bit_32)

lemma length_fe_sendint64: "length (fe_sendint64 e i) = 8"
  by (simp add: fe_sendint64_be length_be_bytes32)

lemma fe_recvint64_be:
  "pos + 8 \<le> length buf \<Longrightarrow>
   fe_recvint64 e buf pos =
     Some (push_bit 32 (ucast (be_word32 (take 4 (drop pos buf))))
           OR ucast (be_word32 (take 4 (drop (pos + 4) buf))))"
  by (simp add: fe_recvint64_def ntohl_memcpy_to32)

lemma fe_recvint64_sendint64: "fe_recvint64 e (fe_sendint64 e i) 0 = Some i"
  by (simp add: fe_recvint64_be length_fe_sendint64)
     (simp add: fe_sendint64_be length_be_bytes32 be_word32_bytes join_halves)

lemma fe_recvint64_at:
  "length pre = pos \<Longrightarrow> fe_recvint64 e (pre @ fe_sendint64 e i @ post) pos = Some i"
  by (simp add: fe_recvint64_be length_fe_sendint64)
     (simp add: fe_sendint64_be length_be_bytes32 be_word32_bytes join_halves)

lemma fe_sendint64_recvint64:
  assumes "pos + 8 \<le> length buf"
  shows "\<exists>v. fe_recvint64 e buf pos = Some v \<and> fe_sendint64 e v = take 8 (drop pos buf)"
proof -
  let ?h = "take 4 (drop pos buf)" and ?l = "take 4 (drop (pos + 4) buf)"
  have lh: "length ?h = 4" and ll: "length ?l = 4" using assms by simp_all
  have split: "take 8 (drop pos buf) = ?h @ ?l"
    by (metis add.commute drop_drop take_add numeral_Bit0 numeral_Bit0)
  let ?v = "push_bit 32 (ucast (be_word32 ?h)) OR ucast (be_word32 ?l) :: int64"
  have "fe_recvint64 e buf pos = Some ?v"
    using assms by (rule fe_recvint64_be)
  moreover have "fe_sendint64 e ?v = ?h @ ?l"
    unfolding fe_sendint64_be high_half low_half by (simp only: be_bytes32_word lh ll)
  ultimately show ?thesis
    using split by simp
qed

lemma be_bytes32_high:
  "be_bytes32 (ucast (drop_bit 32 (i::int64))) =
     [ucast (drop_bit 56 i), ucast (drop_bit 48 i), ucast (drop_bit 40 i), ucast (drop_bit 32 i)]"
proof -
  have a: "(ucast (drop_bit 24 (ucast (drop_bit 32 i) :: uint32)) :: byte) = ucast (drop_bit 56 i)"
    (is "?l = ?r")
  proof (rule bit_word_eqI)
    fix k assume "k < LENGTH(8)" then show "bit ?l k = bit ?r k"
      by (auto simp add: bit_simps ac_simps)
  qed
  have b: "(ucast (drop_bit 16 (ucast (drop_bit 32 i) :: uint32)) :: byte) = ucast (drop_bit 48 i)"
    (is "?l = ?r")
  proof (rule bit_word_eqI)
    fix k assume "k < LENGTH(8)" then show "bit ?l k = bit ?r k"
      by (auto simp add: bit_simps ac_simps)
  qed
  have c: "(ucast (drop_bit 8 (ucast (drop_bit 32 i) :: uint32)) :: byte) = ucast (drop_bit 40 i)"
    (is "?l = ?r")
  proof (rule bit_word_eqI)
    fix k assume "k < LENGTH(8)" then show "bit ?l k = bit ?r k"
      by (auto simp add: bit_simps ac_simps)
  qed
  have d: "(ucast (ucast (drop_bit 32 i) :: uint32) :: byte) = ucast (drop_bit 32 i)"
    (is "?l = ?r")
  proof (rule bit_word_eqI)
    fix k assume "k < LENGTH(8)" then show "bit ?l k = bit ?r k"
      by (auto simp add: bit_simps ac_simps)
  qed
  show ?thesis unfolding be_bytes32_def by (simp only: a b c d)
qed

lemma be_bytes32_low:
  "be_bytes32 (ucast (i::int64)) =
     [ucast (drop_bit 24 i), ucast (drop_bit 16 i), ucast (drop_bit 8 i), ucast i]"
proof -
  have a: "(ucast (drop_bit 24 (ucast i :: uint32)) :: byte) = ucast (drop_bit 24 i)"
    (is "?l = ?r")
  proof (rule bit_word_eqI)
    fix k assume "k < LENGTH(8)" then show "bit ?l k = bit ?r k"
      by (auto simp add: bit_simps ac_simps)
  qed
  have b: "(ucast (drop_bit 16 (ucast i :: uint32)) :: byte) = ucast (drop_bit 16 i)"
    (is "?l = ?r")
  proof (rule bit_word_eqI)
    fix k assume "k < LENGTH(8)" then show "bit ?l k = bit ?r k"
      by (auto simp add: bit_simps ac_simps)
  qed
  have c: "(ucast (drop_bit 8 (ucast i :: uint32)) :: byte) = ucast (drop_bit 8 i)"
    (is "?l = ?r")
  proof (rule bit_word_eqI)
    fix k assume "k < LENGTH(8)" then show "bit ?l k = bit ?r k"
      by (auto simp add: bit_simps ac_simps)
  qed
  have d: "(ucast (ucast i :: uint32) :: byte) = ucast i"
    (is "?l = ?r")
  proof (rule bit_word_eqI)
    fix k assume "k < LENGTH(8)" then show "bit ?l k = bit ?r k"
      by (auto simp add: bit_simps ac_simps)
  qed
  show ?thesis unfolding be_bytes32_def by (simp only: a b c d)
qed

lemma fe_sendint64_big_endian: "fe_sendint64 e i = big_endian64 i"
  by (simp add: fe_sendint64_be be_bytes32_high be_bytes32_low big_endian64_def)

lemma big_endian64_100: "big_endian64 100 = [0, 0, 0, 0, 0, 0, 0, 0x64]"
  by (simp add: big_endian64_def)

lemma big_endian64_0: "big_endian64 0 = [0, 0, 0, 0, 0, 0, 0, 0]"
  by (simp add: big_endian64_def)

lemma m1_numeral: "(- 1 :: int64) = 0xFFFFFFFFFFFFFFFF"
  by simp

lemma big_endian64_m1: "big_endian64 (- 1) = [0xFF, 0xFF, 0xFF, 0xFF, 0xFF, 0xFF, 0xFF, 0xFF]"
  unfolding m1_numeral by (simp add: big_endian64_def)

lemma big_endian64_500: "big_endian64 500 = [0, 0, 0, 0, 0, 0, 0x01, 0xF4]"
  by (simp add: big_endian64_def)

section \<open>Events of the steps\<close>

lemma events_emit: "events (emit ev s) = events s @ [ev]"
  by (simp add: emit_def)

lemma lsn_emit:
  "output_written_lsn (emit ev s) = output_written_lsn s"
  "output_fsync_lsn (emit ev s) = output_fsync_lsn s"
  by (simp_all add: emit_def)

lemma events_observe: "events (observe p s) = events s"
  by (simp add: observe_def Let_def)

lemma sendFeedback_cases:
  "sendFeedback env now s =
     (let s1 = emit (PutCopyData (replybuf (host env) (output_written_lsn s) (output_fsync_lsn s) now))
                 (emit (Log (LogConfirming (output_written_lsn s) (output_fsync_lsn s))) s)
      in if PQputCopyData env (events s @ [Log (LogConfirming (output_written_lsn s) (output_fsync_lsn s))])
              (replybuf (host env) (output_written_lsn s) (output_fsync_lsn s) now) \<le> 0
         then (False, emit (Log LogCouldNotSendFeedback) s1)
         else if PQflush env (events s1) \<noteq> 0
         then (False, emit (Log LogCouldNotSendFeedback) (emit Flush s1))
         else (True, emit Flush s1))"
  by (simp add: sendFeedback_def Let_def events_emit lsn_emit)

lemma sendFeedback_events:
  "\<exists>rest. events (snd (sendFeedback env now s)) =
      events s @ [Log (LogConfirming (output_written_lsn s) (output_fsync_lsn s)),
                  PutCopyData (replybuf (host env) (output_written_lsn s) (output_fsync_lsn s) now)] @ rest
    \<and> set rest \<subseteq> {Flush, Log LogCouldNotSendFeedback}"
  by (simp add: sendFeedback_cases Let_def events_emit)

lemma sendFeedback_lsn:
  "output_written_lsn (snd (sendFeedback env now s)) = output_written_lsn s"
  "output_fsync_lsn (snd (sendFeedback env now s)) = output_fsync_lsn s"
  by (simp_all add: sendFeedback_cases Let_def lsn_emit)

lemma no_txn_simps:
  "no_txn []"
  "no_txn (Log l # evs) = no_txn evs"
  "no_txn (PutCopyData b # evs) = no_txn evs"
  "no_txn (Flush # evs) = no_txn evs"
  "no_txn (Execute st # evs) = no_txn evs"
  "no_txn (xs @ ys) = (no_txn xs \<and> no_txn ys)"
  by (auto simp: no_txn_def)

lemma peek_row_0: "row \<noteq> [] \<Longrightarrow> peek (row @ [0]) 0 = Some (hd row)"
  by (cases row) (simp_all add: peek_def)

lemma sendFeedback_appends:
  "\<exists>evs. events (snd (sendFeedback env now s)) = events s @ evs \<and> no_txn evs"
  by (simp add: sendFeedback_cases Let_def events_emit no_txn_simps)

lemma keepalive_appends:
  assumes "keepalive env buf rc s = (fl, s')"
  shows "\<exists>evs. events s' = events s @ evs \<and> no_txn evs"
proof (cases "fe_recvint64 (host env) buf 1")
  case None
  with assms show ?thesis by (simp add: keepalive_def no_txn_simps)
next
  case (Some walEnd)
  let ?s1 = "observe walEnd s"
  obtain evs where evs:
    "events (snd (sendFeedback env (feGetCurrentTimestamp env (events ?s1)) ?s1)) = events s @ evs"
    "no_txn evs"
    using sendFeedback_appends [of env _ ?s1] by (auto simp: events_observe)
  from assms Some evs show ?thesis
    by (auto simp add: keepalive_def Let_def events_emit events_observe no_txn_simps
             split: if_splits option.splits prod.splits)
qed

lemma waldata_appends:
  assumes "waldata env buf rc s = (fl, s')"
  shows "\<exists>evs. events s' = events s @ evs \<and> no_txn evs"
  using assms
  by (auto simp add: waldata_def Let_def events_emit no_txn_simps
        split: if_splits spi_outcome.splits)

lemma process_row_appends:
  assumes "process_row env buf rc s = (fl, s')"
  shows "\<exists>evs. events s' = events s @ evs \<and> no_txn evs"
  using assms keepalive_appends [of env buf rc s fl s'] waldata_appends [of env buf rc s fl s']
  by (auto simp add: process_row_def events_emit no_txn_simps split: option.splits if_splits)

lemma receive_loop_appends:
  "receive_loop env rs s = Some (le, s') \<Longrightarrow> \<exists>evs. events s' = events s @ evs \<and> no_txn evs"
proof (induction rs arbitrary: s)
  case Nil
  then show ?case by simp
next
  case (Cons r rs)
  show ?case
  proof (cases "rc_of r \<le> 0")
    case True
    with Cons.prems show ?thesis by (simp add: no_txn_simps)
  next
    case False
    obtain fl s1 where pr: "process_row env (copybuf_of r) (rc_of r) s = (fl, s1)"
      by (cases "process_row env (copybuf_of r) (rc_of r) s")
    then obtain evs1 where e1: "events s1 = events s @ evs1" "no_txn evs1"
      using process_row_appends by blast
    show ?thesis
    proof (cases fl)
      case Running
      with Cons.prems False pr have "receive_loop env rs s1 = Some (le, s')" by simp
      then obtain evs2 where "events s' = events s1 @ evs2" "no_txn evs2"
        using Cons.IH by blast
      with e1 show ?thesis by (auto simp: no_txn_simps)
    next
      case (ProcExit n)
      with Cons.prems False pr e1 show ?thesis by auto
    next
      case MemFault
      with Cons.prems False pr e1 show ?thesis by auto
    next
      case ErrorRaised
      with Cons.prems False pr e1 show ?thesis by auto
    qed
  qed
qed

lemma receive_loop_break:
  "receive_loop env rs s = Some (LoopBreak rc, s') \<Longrightarrow> rc = 0 \<or> rc = - 1 \<or> rc = - 2"
proof (induction rs arbitrary: s)
  case Nil
  then show ?case by simp
next
  case (Cons r rs)
  show ?case
  proof (cases "rc_of r \<le> 0")
    case True
    with Cons.prems have "rc = rc_of r" by simp
    with True show ?thesis by (cases r) auto
  next
    case False
    with Cons.prems Cons.IH show ?thesis
      by (auto split: prod.splits flow.splits)
  qed
qed

lemma sendFeedback_failed:
  "sendFeedback env now s = (False, s') \<Longrightarrow>
     events s' \<noteq> [] \<and> last (events s') = Log LogCouldNotSendFeedback"
  by (auto simp add: sendFeedback_cases Let_def events_emit split: if_splits)

lemma process_row_stop:
  assumes "process_row env buf rc s = (fl, s')" "fl \<noteq> Running"
  shows "fl = MemFault
         \<or> (fl = ErrorRaised \<and> events s' \<noteq> [] \<and> (\<exists>stmt. last (events s') = Execute stmt))
         \<or> (fl = ProcExit 1 \<and> events s' \<noteq> [] \<and> fatal_log (last (events s')))"
  using assms
  by (auto simp add: process_row_def keepalive_def waldata_def Let_def events_emit fatal_log_def
        split: option.splits if_splits prod.splits spi_outcome.splits dest: sendFeedback_failed)

section \<open>The codec round trip\<close>

text \<open>
  C5. For every 64-bit value, on either kind of host, \<open>fe_recvint64\<close> gives back the
  value from the eight bytes that \<open>fe_sendint64\<close> wrote, so decoding is a left inverse of
  encoding. And in every row with the 18 bytes of a keepalive, the position field at
  offset 1 and the timestamp field at offset 9 are decoded to values whose encoding is
  again the eight bytes of the field.
\<close>

theorem int64_codec_roundtrip:
  "fe_recvint64 e (fe_sendint64 e i) 0 = Some i \<and>
   (18 \<le> length row \<longrightarrow>
      (\<exists>position sendTime.
         fe_recvint64 e row 1 = Some position \<and> fe_recvint64 e row 9 = Some sendTime \<and>
         fe_sendint64 e position = take 8 (drop 1 row) \<and>
         fe_sendint64 e sendTime = take 8 (drop 9 row)))"
proof (intro conjI impI)
  show "fe_recvint64 e (fe_sendint64 e i) 0 = Some i"
    by (rule fe_recvint64_sendint64)
next
  assume len: "18 \<le> length row"
  then have "1 + 8 \<le> length row" and "9 + 8 \<le> length row" by simp_all
  then obtain p t where
    "fe_recvint64 e row 1 = Some p" "fe_sendint64 e p = take 8 (drop 1 row)"
    "fe_recvint64 e row 9 = Some t" "fe_sendint64 e t = take 8 (drop 9 row)"
    using fe_sendint64_recvint64 [of 1 row e] fe_sendint64_recvint64 [of 9 row e] by auto
  then show "\<exists>position sendTime.
         fe_recvint64 e row 1 = Some position \<and> fe_recvint64 e row 9 = Some sendTime \<and>
         fe_sendint64 e position = take 8 (drop 1 row) \<and>
         fe_sendint64 e sendTime = take 8 (drop 9 row)"
    by blast
qed

theorem int64_codec_roundtrip_witness:
  "fe_recvint64 LittleEndian (fe_sendint64 LittleEndian 0x0102030405060708) 0
     = Some 0x0102030405060708 \<and>
   18 \<le> length row_keepalive_500 \<and>
   (\<exists>position sendTime.
      fe_recvint64 LittleEndian row_keepalive_500 1 = Some position \<and>
      fe_recvint64 LittleEndian row_keepalive_500 9 = Some sendTime \<and>
      fe_sendint64 LittleEndian position = take 8 (drop 1 row_keepalive_500) \<and>
      fe_sendint64 LittleEndian sendTime = take 8 (drop 9 row_keepalive_500))"
proof -
  have len: "18 \<le> length row_keepalive_500"
    by (simp add: row_keepalive_500_def)
  with int64_codec_roundtrip [of LittleEndian "0x0102030405060708" row_keepalive_500]
  show ?thesis by blast
qed

section \<open>The feedback message\<close>

lemma replybuf_layout:
  "replybuf e written fsync now =
     [0x72] @ big_endian64 written @ big_endian64 fsync @ [0, 0, 0, 0, 0, 0, 0, 0]
       @ big_endian64 now @ [0]"
  by (simp add: replybuf_def fe_sendint64_big_endian InvalidXLogRecPtr_def big_endian64_0)

lemma length_big_endian64: "length (big_endian64 v) = 8"
  by (simp add: big_endian64_def)

text \<open>
  C2, as the code has it. With both positions at 100 and the timestamp \<open>T\<close>,
  \<open>sendFeedback\<close> logs the positions and then hands to the connection a message of 34
  bytes: the tag \<^verbatim>\<open>r\<close>, 100 in eight bytes most significant first, the same again, eight
  zero bytes for the apply position (which is \<open>InvalidXLogRecPtr\<close>, that is 0), \<open>T\<close> in
  eight bytes most significant first, and a zero byte. After it come only the flush and,
  when sending failed, the log line that says so.
\<close>

theorem feedback_message_layout:
  "output_written_lsn s = 100 \<and> output_fsync_lsn s = 100 \<longrightarrow>
     (\<exists>rest. events (snd (sendFeedback env T s)) =
        events s @ [Log (LogConfirming 100 100),
          PutCopyData ([0x72] @ [0, 0, 0, 0, 0, 0, 0, 100] @ [0, 0, 0, 0, 0, 0, 0, 100]
                        @ [0, 0, 0, 0, 0, 0, 0, 0] @ big_endian64 T @ [0])] @ rest
        \<and> set rest \<subseteq> {Flush, Log LogCouldNotSendFeedback})
     \<and> length ([0x72] @ [0, 0, 0, 0, 0, 0, 0, 100] @ [0, 0, 0, 0, 0, 0, 0, 100]
                 @ [0, 0, 0, 0, 0, 0, 0, 0 :: byte] @ big_endian64 T @ [0]) = 34"
proof (intro impI conjI)
  assume a: "output_written_lsn s = 100 \<and> output_fsync_lsn s = 100"
  from sendFeedback_events [of env T s] a
  show "\<exists>rest. events (snd (sendFeedback env T s)) =
        events s @ [Log (LogConfirming 100 100),
          PutCopyData ([0x72] @ [0, 0, 0, 0, 0, 0, 0, 100] @ [0, 0, 0, 0, 0, 0, 0, 100]
                        @ [0, 0, 0, 0, 0, 0, 0, 0] @ big_endian64 T @ [0])] @ rest
        \<and> set rest \<subseteq> {Flush, Log LogCouldNotSendFeedback}"
    by (simp add: replybuf_layout big_endian64_100)
next
  show "length ([0x72] @ [0, 0, 0, 0, 0, 0, 0, 100] @ [0, 0, 0, 0, 0, 0, 0, 100]
                 @ [0, 0, 0, 0, 0, 0, 0, 0 :: byte] @ big_endian64 T @ [0]) = 34"
    by (simp add: length_big_endian64)
qed

theorem feedback_message_layout_witness:
  "(output_written_lsn \<lparr>output_written_lsn = 100, output_fsync_lsn = 100, events = []\<rparr> = 100
    \<and> output_fsync_lsn \<lparr>output_written_lsn = 100, output_fsync_lsn = 100, events = []\<rparr> = 100)
   \<and> (\<exists>rest. events (snd (sendFeedback env_ok 7
          \<lparr>output_written_lsn = 100, output_fsync_lsn = 100, events = []\<rparr>)) =
        [Log (LogConfirming 100 100),
          PutCopyData ([0x72] @ [0, 0, 0, 0, 0, 0, 0, 100] @ [0, 0, 0, 0, 0, 0, 0, 100]
                        @ [0, 0, 0, 0, 0, 0, 0, 0] @ big_endian64 7 @ [0])] @ rest)"
  using feedback_message_layout
    [of "\<lparr>output_written_lsn = 100, output_fsync_lsn = 100, events = []\<rparr>" env_ok 7]
  by auto

text \<open>
  C2 as it is written asks for the value -1 in the apply field. On the little-endian
  host where sending succeeds, with both positions at 100 and the timestamp 0, the
  message handed to the connection has eight zero bytes there, and so it is not the
  message with the eight bytes of -1.
\<close>

theorem feedback_apply_field_counterexample:
  "events (snd (sendFeedback env_ok 0
      \<lparr>output_written_lsn = 100, output_fsync_lsn = 100, events = []\<rparr>)) ! 1
     = PutCopyData [0x72, 0, 0, 0, 0, 0, 0, 0, 100, 0, 0, 0, 0, 0, 0, 0, 100,
                    0, 0, 0, 0, 0, 0, 0, 0, 0, 0, 0, 0, 0, 0, 0, 0, 0]
   \<and> events (snd (sendFeedback env_ok 0
      \<lparr>output_written_lsn = 100, output_fsync_lsn = 100, events = []\<rparr>)) ! 1
     \<noteq> PutCopyData ([0x72] @ big_endian64 100 @ big_endian64 100 @ big_endian64 (- 1)
                      @ big_endian64 0 @ [0])"
  by (simp add: sendFeedback_cases Let_def events_emit replybuf_layout env_ok_def
        big_endian64_100 big_endian64_0 big_endian64_m1)

section \<open>The tracked positions\<close>

lemma Max_c_max: "Max_c x y = max x y"
  by (auto simp: Max_c_def max_def)

lemma written_observe: "output_written_lsn (observe p s) = max p (output_written_lsn s)"
  by (simp add: observe_def Let_def Max_c_max)

lemma fsync_observe: "output_fsync_lsn (observe p s) = max p (output_written_lsn s)"
  by (simp add: observe_def Let_def Max_c_max)

lemma written_fold_observe:
  "output_written_lsn (fold observe ps s) = fold max ps (output_written_lsn s)"
  by (induction ps arbitrary: s) (simp_all add: written_observe)

text \<open>
  C4. After the positions \<open>ps\<close> have been observed one after the other, the written
  position is the greatest of the position before and those observed; from the initial
  state, where it is \<open>InvalidXLogRecPtr\<close>, that is the greatest of \<open>InvalidXLogRecPtr\<close> and
  \<open>ps\<close>, and the greatest of \<open>ps\<close> alone when there is at least one. Right after each
  single observation the flushed position equals the written position.
\<close>

theorem position_tracker_max:
  "output_written_lsn (fold observe ps s) = Max (set (output_written_lsn s # ps))
   \<and> output_written_lsn (fold observe ps init_state) = Max (set (InvalidXLogRecPtr # ps))
   \<and> (ps \<noteq> [] \<longrightarrow> output_written_lsn (fold observe ps init_state) = Max (set ps))
   \<and> output_fsync_lsn (observe p s) = output_written_lsn (observe p s)"
proof (intro conjI impI)
  show 1: "output_written_lsn (fold observe ps s) = Max (set (output_written_lsn s # ps))" for s
    by (simp only: written_fold_observe Max.set_eq_fold)
  show 2: "output_written_lsn (fold observe ps init_state) = Max (set (InvalidXLogRecPtr # ps))"
    using 1 [of init_state] by (simp add: init_state_def)
  show "output_fsync_lsn (observe p s) = output_written_lsn (observe p s)"
    by (simp add: written_observe fsync_observe)
  assume ne: "ps \<noteq> []"
  then have "Max (insert InvalidXLogRecPtr (set ps)) = max InvalidXLogRecPtr (Max (set ps))"
    by simp
  also have "\<dots> = Max (set ps)"
    by (simp add: InvalidXLogRecPtr_def max_def)
  finally show "output_written_lsn (fold observe ps init_state) = Max (set ps)"
    using 2 by simp
qed

theorem position_tracker_max_witness:
  "[500, 100, 600 :: XLogRecPtr] \<noteq> []
   \<and> output_written_lsn (fold observe [500, 100, 600] init_state) = 600
   \<and> Max (set [500, 100, 600 :: XLogRecPtr]) = 600"
proof -
  have m: "Max (set [500, 100, 600 :: XLogRecPtr]) = 600" by simp
  have ne: "[500, 100, 600 :: XLogRecPtr] \<noteq> []" by simp
  from position_tracker_max [of "[500, 100, 600]" init_state] ne
  have "output_written_lsn (fold observe [500, 100, 600] init_state)
          = Max (set [500, 100, 600 :: XLogRecPtr])"
    by blast
  with m ne show ?thesis by (simp only: simp_thms)
qed

section \<open>The restriction on DROP DATABASE\<close>

text \<open>
  C9. The hook is a function of its arguments and of the three variables it reads, which
  it does not change. It raises the error of insufficient privilege exactly when the
  statement is a DROP DATABASE of the database named by \<open>hook_dbname\<close> and the name of
  the current user differs from \<open>hook_username\<close>; in every other case it raises nothing
  and hands the statement to the previous hook, or to the standard processing when
  there is none.
\<close>

theorem drop_database_restriction:
  "dbrestrict_utility g standard_ProcessUtility username parsetree =
     (if (\<exists>missing_ok. parsetree = DropdbStmt (hook_dbname g) missing_ok)
          \<and> username \<noteq> hook_username g
      then Inl (ERRCODE_INSUFFICIENT_PRIVILEGE (hook_username g) (hook_dbname g))
      else Inr (case prev_utility_hook g of
                  Some hook \<Rightarrow> hook parsetree
                | None \<Rightarrow> standard_ProcessUtility parsetree))"
  by (cases parsetree; cases "prev_utility_hook g") (auto simp: dbrestrict_utility_def)

section \<open>Rows shorter than their header\<close>

lemma keepalive_row_outside:
  assumes "row \<noteq> []" "hd row = 0x6B" "length row < 8"
  shows "process_row env (row @ [0]) (int (length row)) s = (MemFault, s)"
  using assms by (simp add: process_row_def peek_row_0 keepalive_def fe_recvint64_def)

lemma keepalive_row_truncated:
  assumes "hd row = 0x6B" "8 \<le> length row" "length row < 18"
  shows "\<exists>walEnd. fe_recvint64 (host env) (row @ [0]) 1 = Some walEnd \<and>
           process_row env (row @ [0]) (int (length row)) s =
             (ProcExit 1, emit (Log (LogKeepaliveTooSmall (int (length row)))) (observe walEnd s))"
proof -
  from assms have ne: "row \<noteq> []" by auto
  from assms obtain walEnd where w: "fe_recvint64 (host env) (row @ [0]) 1 = Some walEnd"
    by (simp add: fe_recvint64_def Let_def)
  with assms ne show ?thesis
    by (simp add: process_row_def peek_row_0 keepalive_def Let_def)
qed

text \<open>
  C1, at the row that consists of the tag \<^verbatim>\<open>k\<close> alone. The buffer holds two bytes, the tag
  and the terminating zero. The loop body calls \<open>fe_recvint64\<close> at offset 1 before it
  compares \<open>rc\<close> with the length of the header, so the bytes at the offsets 2 to 8 are
  read outside the buffer: the step ends in \<open>MemFault\<close>, not in \<open>proc_exit(1)\<close> with the
  line about the header being too small. By \<open>keepalive_row_outside\<close> this is so for every
  keepalive row of fewer than 8 bytes; by \<open>keepalive_row_truncated\<close> the rows of 8 to 17
  bytes do end in \<open>proc_exit(1)\<close> with that line.
\<close>

theorem keepalive_read_before_check:
  "copybuf_of (CopyRow [0x6B]) = [0x6B, 0]
   \<and> fe_recvint64 (host env) [0x6B, 0] 1 = None
   \<and> receive_loop env (CopyRow [0x6B] # rs) s = Some (LoopStop MemFault, s)"
  by (simp add: process_row_def peek_def keepalive_def fe_recvint64_def)

lemma waldata_row_header_only:
  assumes "length row = 25" "hd row = 0x77"
  shows "process_row env (row @ [0]) (int (length row)) s
           = (ProcExit 1, emit (Log LogHeaderTooSmall) s)"
proof -
  from assms have ne: "row \<noteq> []" by auto
  with assms show ?thesis
    by (simp add: process_row_def peek_row_0 waldata_def Let_def)
qed

text \<open>
  C3, at the data row of 25 bytes: the tag \<^verbatim>\<open>w\<close> and 24 bytes of header, with no payload.
  The loop body compares \<open>rc\<close> with \<open>hdr_len + 1\<close>, that is with 26, so the row is
  refused: the line \<^verbatim>\<open>Streaming header too small\<close> is logged and the process leaves with
  status 1, although the header is complete. By \<open>waldata_row_header_only\<close> this is so for
  every data row of 25 bytes.
\<close>

theorem waldata_empty_payload_rejected:
  "length row_waldata_header = 25 \<and> hd row_waldata_header = 0x77 \<and>
   receive_loop env (CopyRow row_waldata_header # rs) s
     = Some (LoopStop (ProcExit 1), emit (Log LogHeaderTooSmall) s)"
proof -
  have 1: "length row_waldata_header = 25" and 2: "hd row_waldata_header = 0x77"
    by (simp_all add: row_waldata_header_def)
  from waldata_row_header_only [OF 1 2, of env s] 1 show ?thesis
    using 2 by simp
qed

section \<open>A row with an unknown tag\<close>

lemma main_pass_quiet:
  assumes "\<not> sighup p" "\<not> sigterm p" "\<not> postmaster_death p"
  shows "main_pass env p s =
     (case receive_loop env (copy_results p) (emit StartTransaction s) of
        None \<Rightarrow> None
      | Some (LoopStop fl, s1) \<Rightarrow> Some (PassStop fl, s1)
      | Some (LoopBreak rc, s1) \<Rightarrow> Some (after_commit p rc (emit CommitTransaction s1)))"
  using assms by (simp add: main_pass_def Let_def split: option.splits prod.splits loop_end.splits)

text \<open>
  C6. A row whose first byte is neither \<^verbatim>\<open>k\<close> nor \<^verbatim>\<open>w\<close> ends the receive loop in whatever
  state it is met: the line \<^verbatim>\<open>Incorrect streaming header\<close> is logged and the process
  leaves with status 1, whatever rows \<open>rs\<close> would have come after it. A pass of the main
  loop without signals that receives such a row first ends the main loop in the same
  way, whatever passes \<open>ps\<close> would have come after it.
\<close>

theorem unknown_tag_fatal:
  assumes "row \<noteq> []" "hd row \<noteq> 0x6B" "hd row \<noteq> 0x77"
  shows "receive_loop env (CopyRow row # rs) s
           = Some (LoopStop (ProcExit 1), emit (Log LogIncorrectHeader) s)
         \<and> (\<not> sigterm_at_top p \<and> \<not> sighup p \<and> \<not> sigterm p \<and> \<not> postmaster_death p
              \<and> copy_results p = CopyRow row # rs \<longrightarrow>
            main_loop env (p # ps) s
              = Some (ProcExit 1, emit (Log LogIncorrectHeader) (emit StartTransaction s)))"
proof -
  have row: "process_row env (row @ [0]) (int (length row)) s'
               = (ProcExit 1, emit (Log LogIncorrectHeader) s')" for s'
    using assms by (simp add: process_row_def peek_row_0)
  have loop: "receive_loop env (CopyRow row # rs) s'
                = Some (LoopStop (ProcExit 1), emit (Log LogIncorrectHeader) s')" for s'
    using assms(1) row [of s'] by simp
  show ?thesis
  proof (intro conjI impI)
    show "receive_loop env (CopyRow row # rs) s
           = Some (LoopStop (ProcExit 1), emit (Log LogIncorrectHeader) s)"
      by (rule loop)
  next
    assume p: "\<not> sigterm_at_top p \<and> \<not> sighup p \<and> \<not> sigterm p \<and> \<not> postmaster_death p
              \<and> copy_results p = CopyRow row # rs"
    then have "main_pass env p s
                 = Some (PassStop (ProcExit 1),
                         emit (Log LogIncorrectHeader) (emit StartTransaction s))"
      by (simp add: main_pass_quiet loop del: receive_loop.simps)
    with p show "main_loop env (p # ps) s
              = Some (ProcExit 1, emit (Log LogIncorrectHeader) (emit StartTransaction s))"
      by simp
  qed
qed

theorem unknown_tag_fatal_witness:
  "[0x78 :: byte] \<noteq> [] \<and> hd [0x78 :: byte] \<noteq> 0x6B \<and> hd [0x78 :: byte] \<noteq> 0x77
   \<and> receive_loop env_ok [CopyRow [0x78], CopyRow row_waldata_stmt, NoRowYet] init_state
        = Some (LoopStop (ProcExit 1), emit (Log LogIncorrectHeader) init_state)
   \<and> main_loop env_ok [quiet_pass [CopyRow [0x78], CopyRow row_waldata_stmt, NoRowYet]] init_state
        = Some (ProcExit 1, emit (Log LogIncorrectHeader) (emit StartTransaction init_state))"
proof -
  have h: "[0x78 :: byte] \<noteq> []" "hd [0x78 :: byte] \<noteq> 0x6B" "hd [0x78 :: byte] \<noteq> 0x77"
    by simp_all
  have q: "\<not> sigterm_at_top (quiet_pass rs) \<and> \<not> sighup (quiet_pass rs) \<and> \<not> sigterm (quiet_pass rs)
           \<and> \<not> postmaster_death (quiet_pass rs) \<and> copy_results (quiet_pass rs) = rs" for rs
    by (simp add: quiet_pass_def)
  from unknown_tag_fatal [OF h, of env_ok "[CopyRow row_waldata_stmt, NoRowYet]" init_state
         "quiet_pass [CopyRow [0x78], CopyRow row_waldata_stmt, NoRowYet]" "[]"] q h
  show ?thesis by blast
qed

section \<open>A statement that the local database refuses\<close>

lemma waldata_row_refused:
  assumes "26 \<le> length row" "hd row = 0x77"
    "SPI_execute env (events s) (cstring_at (row @ [0]) 25) = SPI_other code"
  shows "process_row env (row @ [0]) (int (length row)) s
           = (Running, emit (Log (LogApplyError (cstring_at (row @ [0]) 25)))
                         (emit (Execute (cstring_at (row @ [0]) 25)) s))"
proof -
  from assms have ne: "row \<noteq> []" by auto
  with assms show ?thesis
    by (simp add: process_row_def peek_row_0 waldata_def Let_def)
qed

text \<open>
  C8, as the code has it. For a data row with at least one byte after the header whose
  statement makes \<open>SPI_execute\<close> return, with a code other than those of INSERT, UPDATE
  and DELETE, the loop body executes the statement, logs \<^verbatim>\<open>Error when applying change\<close>
  and does nothing else: the step ends in \<open>Running\<close>, the positions and the number of
  commits are as before, and the receive loop goes on with the rows that follow, in the
  same transaction.
\<close>

theorem failed_statement_not_fatal:
  assumes "26 \<le> length row" "hd row = 0x77"
    "SPI_execute env (events s) (cstring_at (row @ [0]) 25) = SPI_other code"
  shows "\<exists>s'. process_row env (row @ [0]) (int (length row)) s = (Running, s')
           \<and> events s' = events s @ [Execute (cstring_at (row @ [0]) 25),
                                      Log (LogApplyError (cstring_at (row @ [0]) 25))]
           \<and> output_written_lsn s' = output_written_lsn s
           \<and> output_fsync_lsn s' = output_fsync_lsn s
           \<and> commits s' = commits s
           \<and> receive_loop env (CopyRow row # rs) s = receive_loop env rs s'"
proof -
  let ?stmt = "cstring_at (row @ [0]) 25"
  let ?s' = "emit (Log (LogApplyError ?stmt)) (emit (Execute ?stmt) s)"
  have row: "process_row env (row @ [0]) (int (length row)) s = (Running, ?s')"
    using assms by (rule waldata_row_refused)
  have ev: "events ?s' = events s @ [Execute ?stmt, Log (LogApplyError ?stmt)]"
    by (simp add: events_emit)
  have "commits ?s' = commits s"
    by (simp add: commits_def ev)
  moreover have "row \<noteq> []"
    using assms(1) by auto
  then have "receive_loop env (CopyRow row # rs) s = receive_loop env rs ?s'"
    using row by simp
  ultimately show ?thesis
    using row ev by (simp add: lsn_emit)
qed


theorem failed_statement_not_fatal_witness:
  "26 \<le> length row_waldata_stmt \<and> hd row_waldata_stmt = 0x77
   \<and> SPI_execute env_refusing (events init_state) (cstring_at (row_waldata_stmt @ [0]) 25)
        = SPI_other (- 1)
   \<and> receive_loop env_refusing [CopyRow row_waldata_stmt, NoRowYet] init_state
        = Some (LoopBreak 0,
                init_state\<lparr>events := [Execute [0x3B, 0x3B], Log (LogApplyError [0x3B, 0x3B])]\<rparr>)"
proof -
  have h: "26 \<le> length row_waldata_stmt" "hd row_waldata_stmt = 0x77"
    "SPI_execute env_refusing (events init_state) (cstring_at (row_waldata_stmt @ [0]) 25)
        = SPI_other (- 1)"
    by (simp_all add: row_waldata_stmt_def env_refusing_def env_ok_def)
  have stmt: "cstring_at (row_waldata_stmt @ [0]) 25 = [0x3B, 0x3B]"
    by (simp add: cstring_at_def row_waldata_stmt_def)
  from failed_statement_not_fatal [OF h, of "[NoRowYet]"]
  obtain s' where s':
    "events s' = events init_state @ [Execute [0x3B, 0x3B], Log (LogApplyError [0x3B, 0x3B])]"
    "output_written_lsn s' = output_written_lsn init_state"
    "output_fsync_lsn s' = output_fsync_lsn init_state"
    "receive_loop env_refusing [CopyRow row_waldata_stmt, NoRowYet] init_state
       = receive_loop env_refusing [NoRowYet] s'"
    unfolding stmt by blast
  from s'(1-3) have "s' = init_state\<lparr>events := [Execute [0x3B, 0x3B], Log (LogApplyError [0x3B, 0x3B])]\<rparr>"
    by (simp add: init_state_def)
  with s'(4) h show ?thesis by simp
qed

lemma waldata_row_raises:
  assumes "26 \<le> length row" "hd row = 0x77"
    "SPI_execute env (events s) (cstring_at (row @ [0]) 25) = SPI_raises_error"
  shows "process_row env (row @ [0]) (int (length row)) s
           = (ErrorRaised, emit (Execute (cstring_at (row @ [0]) 25)) s)"
proof -
  from assms have ne: "row \<noteq> []" by auto
  with assms show ?thesis
    by (simp add: process_row_def peek_row_0 waldata_def Let_def)
qed

text \<open>
  C8 as it is written speaks of every statement that fails against the local database.
  The statement \<^verbatim>\<open>x\<close> fails there with an error raised inside \<open>SPI_execute\<close>, which the
  loop body does not catch: the line \<^verbatim>\<open>Error when applying change\<close> is not logged, the
  receive loop ends without turning to the row that follows, and the pass ends without
  a commit.
\<close>

theorem failed_statement_raises_counterexample:
  "receive_loop env_failing [CopyRow row_waldata_x, CopyRow row_waldata_stmt, NoRowYet]
     (emit StartTransaction init_state)
     = Some (LoopStop ErrorRaised,
             init_state\<lparr>events := [StartTransaction, Execute [0x78]]\<rparr>)
   \<and> main_pass env_failing
         (quiet_pass [CopyRow row_waldata_x, CopyRow row_waldata_stmt, NoRowYet]) init_state
     = Some (PassStop ErrorRaised,
             init_state\<lparr>events := [StartTransaction, Execute [0x78]]\<rparr>)"
  by (simp add: main_pass_def quiet_pass_def process_row_def peek_def waldata_def cstring_at_def
        row_waldata_x_def env_failing_def env_ok_def emit_def init_state_def Let_def)

section \<open>A keepalive that asks for a reply\<close>

lemma keepalive_row_reply:
  assumes "length sendTime = 8" "flag \<noteq> 0"
    and row: "row = [0x6B] @ big_endian64 walEnd @ sendTime @ [flag] @ extra"
  shows "process_row env (row @ [0]) (int (length row)) s =
     (let s1 = observe walEnd s;
          (sent, s2) = sendFeedback env (feGetCurrentTimestamp env (events s1)) s1
      in (if sent then Running else ProcExit 1, s2))"
proof -
  have len: "length row = 18 + length extra"
    using assms by (simp add: length_big_endian64)
  have tag: "peek (row @ [0]) 0 = Some 0x6B"
    by (simp add: row peek_def)
  have "fe_recvint64 (host env) ([0x6B] @ fe_sendint64 (host env) walEnd
           @ (sendTime @ [flag] @ extra @ [0])) 1 = Some walEnd"
    by (rule fe_recvint64_at) simp
  then have pos: "fe_recvint64 (host env) (row @ [0]) 1 = Some walEnd"
    by (simp add: row fe_sendint64_big_endian)
  have "(row @ [0]) ! 17 = flag"
    using assms(1) by (simp add: row nth_append length_big_endian64)
  then have flag: "peek (row @ [0]) 17 = Some flag"
    using len by (simp add: peek_def)
  show ?thesis
    using tag pos flag assms(2) len
    by (simp add: process_row_def keepalive_def Let_def split: prod.splits)
qed

lemma keepalive_reply_max:
  assumes "length sendTime = 8" "flag \<noteq> 0"
    and "row = [0x6B] @ big_endian64 500 @ sendTime @ [flag] @ extra"
  shows "\<exists>fl s' rest.
     process_row env (row @ [0]) (int (length row)) s = (fl, s')
     \<and> output_written_lsn s' = max 500 (output_written_lsn s)
     \<and> output_fsync_lsn s' = max 500 (output_written_lsn s)
     \<and> (output_written_lsn s \<le> 500 \<longrightarrow> output_written_lsn s' = 500 \<and> output_fsync_lsn s' = 500)
     \<and> events s' = events s @
          [Log (LogConfirming (max 500 (output_written_lsn s)) (max 500 (output_written_lsn s))),
           PutCopyData ([0x72] @ big_endian64 (max 500 (output_written_lsn s))
                         @ big_endian64 (max 500 (output_written_lsn s))
                         @ [0, 0, 0, 0, 0, 0, 0, 0]
                         @ big_endian64 (feGetCurrentTimestamp env (events s)) @ [0])] @ rest
     \<and> set rest \<subseteq> {Flush, Log LogCouldNotSendFeedback}
     \<and> commits s' = commits s
     \<and> receive_loop env (CopyRow row # rs) s
          = (if fl = Running then receive_loop env rs s' else Some (LoopStop fl, s'))"
proof -
  let ?m = "max 500 (output_written_lsn s)"
  let ?s1 = "observe 500 s"
  let ?now = "feGetCurrentTimestamp env (events s)"
  obtain sent s2 where sf: "sendFeedback env ?now ?s1 = (sent, s2)"
    by (cases "sendFeedback env ?now ?s1")
  let ?fl = "if sent then Running else ProcExit 1"
  have pr: "process_row env (row @ [0]) (int (length row)) s = (?fl, s2)"
    using keepalive_row_reply [OF assms, of env s] sf by (simp add: Let_def events_observe)
  have w: "output_written_lsn s2 = ?m" and f: "output_fsync_lsn s2 = ?m"
    using sendFeedback_lsn [of env ?now ?s1] sf by (simp_all add: written_observe fsync_observe)
  from sendFeedback_events [of env ?now ?s1] sf obtain rest where
    ev: "events s2 = events s @
          [Log (LogConfirming ?m ?m),
           PutCopyData ([0x72] @ big_endian64 ?m @ big_endian64 ?m @ [0, 0, 0, 0, 0, 0, 0, 0]
                         @ big_endian64 ?now @ [0])] @ rest"
    and rest: "set rest \<subseteq> {Flush, Log LogCouldNotSendFeedback}"
    by (auto simp add: events_observe written_observe fsync_observe replybuf_layout)
  have "CommitTransaction \<notin> set rest" using rest by auto
  then have c: "commits s2 = commits s"
    by (simp add: commits_def ev)
  have "row \<noteq> []" using assms(3) by simp
  then have loop: "receive_loop env (CopyRow row # rs) s
          = (if ?fl = Running then receive_loop env rs s2 else Some (LoopStop ?fl, s2))"
    using pr by simp
  have le: "output_written_lsn s \<le> 500 \<longrightarrow> ?m = 500"
    by (simp add: max_def)
  from pr w f ev rest c loop le show ?thesis
    by (intro exI [of _ ?fl] exI [of _ s2] exI [of _ rest]) (simp only: simp_thms)
qed

text \<open>
  C7. Take a keepalive row with the position 500 and a reply flag that is not zero,
  received when the written position is at most 500, as it is in a fresh session and
  as long as no keepalive has carried a position beyond 500. The loop body first sets
  the written and the flushed position to 500. It then logs the two positions and hands
  to the connection the feedback message with 500 in the write and in the flush field,
  the timestamp being the clock read at that moment. Only the flush and, when sending
  failed, the log line that says so follow; nothing is committed, and the receive loop
  turns to the rows that follow only afterwards, or leaves when sending failed.
\<close>

theorem keepalive_reply_feedback:
  assumes "length sendTime = 8" "flag \<noteq> 0"
    and "row = [0x6B] @ big_endian64 500 @ sendTime @ [flag] @ extra"
    and "output_written_lsn s \<le> 500"
  shows "\<exists>fl s' rest.
     process_row env (row @ [0]) (int (length row)) s = (fl, s')
     \<and> output_written_lsn s' = 500 \<and> output_fsync_lsn s' = 500
     \<and> events s' = events s @
          [Log (LogConfirming 500 500),
           PutCopyData ([0x72] @ big_endian64 500 @ big_endian64 500
                         @ [0, 0, 0, 0, 0, 0, 0, 0]
                         @ big_endian64 (feGetCurrentTimestamp env (events s)) @ [0])] @ rest
     \<and> set rest \<subseteq> {Flush, Log LogCouldNotSendFeedback}
     \<and> commits s' = commits s
     \<and> receive_loop env (CopyRow row # rs) s
          = (if fl = Running then receive_loop env rs s' else Some (LoopStop fl, s'))"
proof -
  have m: "max 500 (output_written_lsn s) = 500"
    using assms(4) by (simp add: max_def)
  from keepalive_reply_max [OF assms(1-3), of env s rs] show ?thesis
    unfolding m by blast
qed

theorem keepalive_reply_feedback_witness:
  "length [0, 0, 0, 0, 0, 0, 0, 0 :: byte] = 8 \<and> (1 :: byte) \<noteq> 0
   \<and> row_keepalive_500 = [0x6B] @ big_endian64 500 @ [0, 0, 0, 0, 0, 0, 0, 0] @ [1] @ []
   \<and> output_written_lsn init_state \<le> 500
   \<and> (\<exists>fl s' rest.
        process_row env_ok (row_keepalive_500 @ [0]) (int (length row_keepalive_500)) init_state
          = (fl, s')
        \<and> output_written_lsn s' = 500 \<and> output_fsync_lsn s' = 500
        \<and> events s' =
             [Log (LogConfirming 500 500),
              PutCopyData ([0x72] @ big_endian64 500 @ big_endian64 500
                            @ [0, 0, 0, 0, 0, 0, 0, 0] @ big_endian64 0 @ [0])] @ rest)"
proof -
  have h: "length [0, 0, 0, 0, 0, 0, 0, 0 :: byte] = 8" "(1 :: byte) \<noteq> 0"
    "row_keepalive_500 = [0x6B] @ big_endian64 500 @ [0, 0, 0, 0, 0, 0, 0, 0] @ [1] @ []"
    "output_written_lsn init_state \<le> 500"
    by (simp_all add: row_keepalive_500_def big_endian64_500 init_state_def InvalidXLogRecPtr_def)
  have i: "events init_state = []" "feGetCurrentTimestamp env_ok [] = 0"
    by (simp_all add: init_state_def env_ok_def)
  from keepalive_reply_feedback [OF h, of env_ok "[]"] h show ?thesis
    by (simp only: i append_Nil simp_thms) blast
qed

section \<open>Leaving inside a batch\<close>

lemma count_no_txn: "no_txn evs \<Longrightarrow> count_list evs CommitTransaction = 0"
  by (simp add: no_txn_def)

lemma snd_fold_txn_step:
  "CommitTransaction \<notin> set evs \<Longrightarrow> snd (fold txn_step evs (batch, kept)) = kept"
proof (induction evs arbitrary: batch)
  case Nil
  then show ?case by simp
next
  case (Cons ev evs)
  then show ?case by (cases ev) simp_all
qed

lemma persisted_append:
  assumes "events s' = events s @ evs" "CommitTransaction \<notin> set evs"
  shows "persisted s' = persisted s"
proof -
  obtain batch kept where f: "fold txn_step (events s) ([], []) = (batch, kept)"
    by (cases "fold txn_step (events s) ([], [])")
  then show ?thesis
    using assms by (simp add: persisted_def snd_fold_txn_step)
qed

lemma commits_append:
  assumes "events s' = events s @ evs" "CommitTransaction \<notin> set evs"
  shows "commits s' = commits s"
  using assms by (simp add: commits_def)

lemma receive_loop_stop:
  "receive_loop env rs s = Some (LoopStop fl, s') \<Longrightarrow>
     fl = MemFault
     \<or> (fl = ErrorRaised \<and> events s' \<noteq> [] \<and> (\<exists>stmt. last (events s') = Execute stmt))
     \<or> (fl = ProcExit 1 \<and> events s' \<noteq> [] \<and> fatal_log (last (events s')))"
proof (induction rs arbitrary: s)
  case Nil
  then show ?case by simp
next
  case (Cons r rs)
  show ?case
  proof (cases "rc_of r \<le> 0")
    case True
    with Cons.prems show ?thesis by simp
  next
    case False
    obtain fl1 s1 where pr: "process_row env (copybuf_of r) (rc_of r) s = (fl1, s1)"
      by (cases "process_row env (copybuf_of r) (rc_of r) s")
    show ?thesis
    proof (cases "fl1 = Running")
      case True
      with Cons.prems False pr have "receive_loop env rs s1 = Some (LoopStop fl, s')" by simp
      then show ?thesis by (rule Cons.IH)
    next
      case stop: False
      with Cons.prems False pr have "fl = fl1" "s' = s1"
        by (cases fl1; simp)+
      with process_row_stop [OF pr stop] show ?thesis by simp
    qed
  qed
qed

lemma after_commit_commits: "commits (snd (after_commit p rc s)) = commits s"
  by (simp add: after_commit_def Let_def commits_def events_emit)

lemma sighup_events:
  "\<exists>pre. events (if sighup p then emit (Log LogProcessedSIGHUP) (emit ProcessConfigFile s) else s)
            = events s @ pre \<and> CommitTransaction \<notin> set pre"
  by (simp add: events_emit)

lemma main_pass_cases:
  assumes "\<not> sigterm p" "\<not> postmaster_death p"
  shows "main_pass env p s =
     (case receive_loop env (copy_results p)
             (emit StartTransaction
                (if sighup p then emit (Log LogProcessedSIGHUP) (emit ProcessConfigFile s) else s)) of
        None \<Rightarrow> None
      | Some (LoopStop fl, s1) \<Rightarrow> Some (PassStop fl, s1)
      | Some (LoopBreak rc, s1) \<Rightarrow> Some (after_commit p rc (emit CommitTransaction s1)))"
  using assms
  by (simp add: main_pass_def Let_def split: option.splits prod.splits loop_end.splits)

text \<open>
  C10. Take a pass of the main loop that gets beyond the signal checks, and let \<open>s0\<close> be
  the state in which its batch has been opened. If the receive loop ends because the
  process leaves, then the pass ends there with the same status: nothing has been
  committed since the pass began, the statements that the database keeps are those it
  kept before, and the status is 1 with, as the last log line, one of the four lines of
  \<open>fatal_log\<close> (or the step has read outside the buffer, or \<open>SPI_execute\<close> has raised an
  error on the statement executed last). And if the pass has committed
  anything at all, then the receive loop has ended by \<^verbatim>\<open>break\<close> with \<open>rc\<close> being 0, -1 or
  -2, and the pass has committed exactly once.
\<close>

theorem fatal_exit_before_commit:
  assumes "\<not> sigterm p" "\<not> postmaster_death p"
    and "s0 = emit StartTransaction
                (if sighup p then emit (Log LogProcessedSIGHUP) (emit ProcessConfigFile s) else s)"
  shows "(receive_loop env (copy_results p) s0 = Some (LoopStop fl, s1) \<longrightarrow>
            main_pass env p s = Some (PassStop fl, s1)
            \<and> commits s1 = commits s \<and> persisted s1 = persisted s
            \<and> (fl = MemFault
                \<or> fl = ErrorRaised \<and> (\<exists>stmt. last (events s1) = Execute stmt)
                \<or> fl = ProcExit 1 \<and> fatal_log (last (events s1))))
       \<and> (main_pass env p s = Some (pe, s') \<and> commits s' \<noteq> commits s \<longrightarrow>
            (\<exists>rc s2. receive_loop env (copy_results p) s0 = Some (LoopBreak rc, s2)
                      \<and> (rc = 0 \<or> rc = - 1 \<or> rc = - 2)
                      \<and> commits s' = commits s + 1))"
proof -
  obtain pre where pre:
    "events s0 = events s @ pre @ [StartTransaction]" "CommitTransaction \<notin> set pre"
    using sighup_events [of p s] assms(3) by (auto simp add: events_emit)
  have mp: "main_pass env p s =
     (case receive_loop env (copy_results p) s0 of
        None \<Rightarrow> None
      | Some (LoopStop fl, s1) \<Rightarrow> Some (PassStop fl, s1)
      | Some (LoopBreak rc, s1) \<Rightarrow> Some (after_commit p rc (emit CommitTransaction s1)))"
    unfolding assms(3) using assms(1,2) by (rule main_pass_cases)
  have stopped: "main_pass env p s = Some (PassStop fl, s1)
            \<and> commits s1 = commits s \<and> persisted s1 = persisted s
            \<and> (fl = MemFault
                \<or> fl = ErrorRaised \<and> (\<exists>stmt. last (events s1) = Execute stmt)
                \<or> fl = ProcExit 1 \<and> fatal_log (last (events s1)))"
    if stop: "receive_loop env (copy_results p) s0 = Some (LoopStop fl, s1)"
  proof -
    from stop obtain evs where evs: "events s1 = events s0 @ evs" "no_txn evs"
      using receive_loop_appends by blast
    then have e1: "events s1 = events s @ (pre @ [StartTransaction] @ evs)"
      and nc: "CommitTransaction \<notin> set (pre @ [StartTransaction] @ evs)"
      using pre by (simp_all add: no_txn_def)
    have "main_pass env p s = Some (PassStop fl, s1)"
      using mp stop by simp
    moreover have "commits s1 = commits s"
      using e1 nc by (rule commits_append)
    moreover have "persisted s1 = persisted s"
      using e1 nc by (rule persisted_append)
    moreover have "fl = MemFault
                \<or> fl = ErrorRaised \<and> (\<exists>stmt. last (events s1) = Execute stmt)
                \<or> fl = ProcExit 1 \<and> fatal_log (last (events s1))"
      using receive_loop_stop [OF stop] by blast
    ultimately show ?thesis by blast
  qed
  have committed: "\<exists>rc s2. receive_loop env (copy_results p) s0 = Some (LoopBreak rc, s2)
                      \<and> (rc = 0 \<or> rc = - 1 \<or> rc = - 2)
                      \<and> commits s' = commits s + 1"
    if a: "main_pass env p s = Some (pe, s') \<and> commits s' \<noteq> commits s"
  proof (cases "receive_loop env (copy_results p) s0")
    case None
    with mp a show ?thesis by simp
  next
    case (Some res)
    obtain le s2 where res: "res = (le, s2)" by (cases res)
    obtain evs where evs: "events s2 = events s0 @ evs" "no_txn evs"
      using receive_loop_appends Some res by blast
    then have e2: "events s2 = events s @ (pre @ [StartTransaction] @ evs)"
      and nc: "CommitTransaction \<notin> set (pre @ [StartTransaction] @ evs)"
      using pre by (simp_all add: no_txn_def)
    have c2: "commits s2 = commits s"
      using e2 nc by (rule commits_append)
    show ?thesis
    proof (cases le)
      case (LoopStop fl')
      with mp a Some res c2 show ?thesis by simp
    next
      case (LoopBreak rc)
      have rc: "rc = 0 \<or> rc = - 1 \<or> rc = - 2"
        using Some res LoopBreak receive_loop_break by blast
      have "s' = snd (after_commit p rc (emit CommitTransaction s2))"
        using mp a Some res LoopBreak by (cases "after_commit p rc (emit CommitTransaction s2)") simp
      then have "commits s' = commits (emit CommitTransaction s2)"
        by (simp add: after_commit_commits)
      also have "\<dots> = commits s + 1"
        using c2 by (simp add: commits_def events_emit)
      finally show ?thesis
        using Some res LoopBreak rc by simp
    qed
  qed
  from stopped committed show ?thesis by blast
qed

lemma waldata_row_insert_ok:
  "process_row env_ok (row_waldata_stmt @ [0]) (int (length row_waldata_stmt)) s
     = (Running, emit (Log (LogInsert [0x3B, 0x3B])) (emit (Execute [0x3B, 0x3B]) s))"
  by (simp add: process_row_def peek_def waldata_def cstring_at_def row_waldata_stmt_def
        env_ok_def Let_def)

lemma unknown_row_x:
  "process_row env [0x78, 0] 1 s = (ProcExit 1, emit (Log LogIncorrectHeader) s)"
  by (simp add: process_row_def peek_def)

theorem fatal_exit_before_commit_witness:
  "\<not> sigterm (quiet_pass [CopyRow row_waldata_stmt, CopyRow [0x78], NoRowYet])
   \<and> \<not> postmaster_death (quiet_pass [CopyRow row_waldata_stmt, CopyRow [0x78], NoRowYet])
   \<and> receive_loop env_ok [CopyRow row_waldata_stmt, CopyRow [0x78], NoRowYet]
        (emit StartTransaction init_state)
       = Some (LoopStop (ProcExit 1),
           init_state\<lparr>events := [StartTransaction, Execute [0x3B, 0x3B],
                                  Log (LogInsert [0x3B, 0x3B]), Log LogIncorrectHeader]\<rparr>)
   \<and> main_pass env_ok (quiet_pass [CopyRow row_waldata_stmt, CopyRow [0x78], NoRowYet]) init_state
       = Some (PassStop (ProcExit 1),
           init_state\<lparr>events := [StartTransaction, Execute [0x3B, 0x3B],
                                  Log (LogInsert [0x3B, 0x3B]), Log LogIncorrectHeader]\<rparr>)
   \<and> commits (init_state\<lparr>events := [StartTransaction, Execute [0x3B, 0x3B],
                                  Log (LogInsert [0x3B, 0x3B]), Log LogIncorrectHeader]\<rparr>) = 0
   \<and> persisted (init_state\<lparr>events := [StartTransaction, Execute [0x3B, 0x3B],
                                  Log (LogInsert [0x3B, 0x3B]), Log LogIncorrectHeader]\<rparr>) = []
   \<and> main_pass env_ok (quiet_pass [CopyRow row_waldata_stmt, NoRowYet]) init_state
       = Some (PassContinue,
           init_state\<lparr>events := [StartTransaction, Execute [0x3B, 0x3B],
                                  Log (LogInsert [0x3B, 0x3B]), CommitTransaction]\<rparr>)
   \<and> commits (init_state\<lparr>events := [StartTransaction, Execute [0x3B, 0x3B],
                                  Log (LogInsert [0x3B, 0x3B]), CommitTransaction]\<rparr>)
       \<noteq> commits init_state
   \<and> (\<exists>rc s2. receive_loop env_ok [CopyRow row_waldata_stmt, NoRowYet]
                  (emit StartTransaction init_state) = Some (LoopBreak rc, s2)
               \<and> (rc = 0 \<or> rc = - 1 \<or> rc = - 2))"
proof -
  let ?p = "quiet_pass [CopyRow row_waldata_stmt, CopyRow [0x78], NoRowYet]"
  let ?s1 = "init_state\<lparr>events := [StartTransaction, Execute [0x3B, 0x3B],
                                  Log (LogInsert [0x3B, 0x3B]), Log LogIncorrectHeader]\<rparr>"
  let ?p' = "quiet_pass [CopyRow row_waldata_stmt, NoRowYet]"
  let ?s2 = "init_state\<lparr>events := [StartTransaction, Execute [0x3B, 0x3B],
                                  Log (LogInsert [0x3B, 0x3B]), CommitTransaction]\<rparr>"
  have q: "\<not> sigterm (quiet_pass rs)" "\<not> postmaster_death (quiet_pass rs)"
    "emit StartTransaction init_state =
       emit StartTransaction
         (if sighup (quiet_pass rs)
          then emit (Log LogProcessedSIGHUP) (emit ProcessConfigFile init_state)
          else init_state)" for rs
    by (simp_all add: quiet_pass_def)
  have cr: "copy_results (quiet_pass rs) = rs" for rs
    by (simp add: quiet_pass_def)
  have ne: "row_waldata_stmt \<noteq> []" by (simp add: row_waldata_stmt_def)
  have loop: "receive_loop env_ok [CopyRow row_waldata_stmt, CopyRow [0x78], NoRowYet]
        (emit StartTransaction init_state) = Some (LoopStop (ProcExit 1), ?s1)"
    using ne by (simp add: waldata_row_insert_ok unknown_row_x emit_def init_state_def)
  have i: "commits init_state = 0" "persisted init_state = []"
    by (simp_all add: commits_def persisted_def init_state_def)
  have loop': "receive_loop env_ok (copy_results ?p) (emit StartTransaction init_state)
                 = Some (LoopStop (ProcExit 1), ?s1)"
    unfolding cr by (rule loop)
  from fatal_exit_before_commit
         [OF q [of "[CopyRow row_waldata_stmt, CopyRow [0x78], NoRowYet]"],
          of env_ok "ProcExit 1" ?s1]
       loop'
  have "main_pass env_ok ?p init_state = Some (PassStop (ProcExit 1), ?s1)
          \<and> commits ?s1 = commits init_state \<and> persisted ?s1 = persisted init_state"
    by blast
  then have first: "main_pass env_ok ?p init_state = Some (PassStop (ProcExit 1), ?s1)
                \<and> commits ?s1 = 0 \<and> persisted ?s1 = []"
    unfolding i .
  have pass: "main_pass env_ok ?p' init_state = Some (PassContinue, ?s2)"
    using ne
    by (simp add: main_pass_def quiet_pass_def after_commit_def waldata_row_insert_ok
          emit_def init_state_def)
  have c: "commits ?s2 \<noteq> commits init_state"
    by (simp add: commits_def init_state_def)
  from fatal_exit_before_commit
         [OF q [of "[CopyRow row_waldata_stmt, NoRowYet]"], of env_ok _ _ PassContinue ?s2]
       pass c
  have "\<exists>rc s2. receive_loop env_ok (copy_results ?p') (emit StartTransaction init_state)
                  = Some (LoopBreak rc, s2)
               \<and> (rc = 0 \<or> rc = - 1 \<or> rc = - 2)"
    by blast
  then have second: "\<exists>rc s2. receive_loop env_ok [CopyRow row_waldata_stmt, NoRowYet]
                  (emit StartTransaction init_state) = Some (LoopBreak rc, s2)
               \<and> (rc = 0 \<or> rc = - 1 \<or> rc = - 2)"
    unfolding cr .
  from q(1,2) loop first pass c second show ?thesis
    by (simp only: simp_thms)
qed

end
